theory Spec2Isabelle
  imports Main "HOL-Library.AList" "HOL-Library.Sublist"
begin

section \<open>JavaScript values read from config.yml\<close>

text \<open>
  Strings are lists of \<^typ>\<open>char\<close>; a \<^typ>\<open>char\<close> stands for the UTF-16 code unit with the
  same number, so the model covers the strings over U+0000..U+00FF.

  \<open>JNumber\<close> holds the integers of YAML. \<open>JObject s\<close> is any value whose \<open>typeof\<close> is
  \<open>object\<close> and that is not \<open>null\<close> (a YAML sequence, mapping or timestamp); \<open>s\<close> is the
  string its \<open>toString\<close> gives, which is all that \<open>RegExp.prototype.test\<close> and a template
  literal read from it.
\<close>

datatype jsval =
    JUndefined
  | JNull
  | JBoolean bool
  | JNumber int
  | JString string
  | JObject string

definition digit_char :: "nat \<Rightarrow> char" where
  "digit_char d = ''0123456789'' ! d"

function dec_nat :: "nat \<Rightarrow> string" where
  "dec_nat n = (if n < 10 then [digit_char n] else dec_nat (n div 10) @ [digit_char (n mod 10)])"
  by pat_completeness auto
termination
  by (relation "measure (\<lambda>n. n)") auto

declare dec_nat.simps [simp del]

fun to_string :: "jsval \<Rightarrow> string" where
  "to_string JUndefined = ''undefined''"
| "to_string JNull = ''null''"
| "to_string (JBoolean b) = (if b then ''true'' else ''false'')"
| "to_string (JNumber i) = (if i < 0 then CHR ''-'' # dec_nat (nat (- i)) else dec_nat (nat i))"
| "to_string (JString s) = s"
| "to_string (JObject s) = s"

fun typeof :: "jsval \<Rightarrow> string" where
  "typeof JUndefined = ''undefined''"
| "typeof JNull = ''object''"
| "typeof (JBoolean b) = ''boolean''"
| "typeof (JNumber i) = ''number''"
| "typeof (JString s) = ''string''"
| "typeof (JObject s) = ''object''"

text \<open>\<open>truthy v\<close> is what \<open>!v\<close> negates.\<close>

fun truthy :: "jsval \<Rightarrow> bool" where
  "truthy JUndefined = False"
| "truthy JNull = False"
| "truthy (JBoolean b) = b"
| "truthy (JNumber i) = (i \<noteq> 0)"
| "truthy (JString s) = (s \<noteq> [])"
| "truthy (JObject s) = True"

section \<open>Regular expressions\<close>

text \<open>
  The two patterns of \<open>checkProjectInitDate\<close> use character classes, ranges, grouping,
  alternation and a counted repetition. \<open>rmatch r s\<close> lists what is left of \<open>s\<close> after
  each way of matching \<open>r\<close> at its start.
\<close>

datatype regex =
    Class "char list"
  | Range char char
  | Seq regex regex
  | Alt regex regex
  | Times nat regex

fun rmatch :: "regex \<Rightarrow> string \<Rightarrow> string list" where
  "rmatch (Class cs) s = (case s of [] \<Rightarrow> [] | c # t \<Rightarrow> if c \<in> set cs then [t] else [])"
| "rmatch (Range lo hi) s =
     (case s of [] \<Rightarrow> []
      | c # t \<Rightarrow> if (of_char lo :: nat) \<le> of_char c \<and> (of_char c :: nat) \<le> of_char hi then [t] else [])"
| "rmatch (Seq a b) s = concat (map (rmatch b) (rmatch a s))"
| "rmatch (Alt a b) s = rmatch a s @ rmatch b s"
| "rmatch (Times n r) s = ((\<lambda>ss. concat (map (rmatch r) ss)) ^^ n) [s]"

text \<open>
  \<open>new RegExp('^r$').test(v)\<close>: the argument is converted to a string, and without the
  \<open>m\<close> flag \<open>^\<close> and \<open>$\<close> match at the two ends of the input only, so the whole string
  has to match \<open>r\<close>.
\<close>

definition regexp_test :: "regex \<Rightarrow> jsval \<Rightarrow> bool" where
  "regexp_test r v = ([] \<in> set (rmatch r (to_string v)))"

definition reYear :: regex where
  "reYear = Seq (Class ''12'') (Times 3 (Range CHR ''0'' CHR ''9''))"

definition reMonth :: regex where
  "reMonth = Alt (Seq (Class ''1'') (Range CHR ''0'' CHR ''2''))
                 (Seq (Class ''0'') (Range CHR ''1'' CHR ''9''))"

section \<open>Configuration and derived names\<close>

record projectInitDate =
  year :: jsval
  month :: jsval

record config =
  projectInitDate :: projectInitDate
  projectName :: string
  dest :: string

definition yearString :: "config \<Rightarrow> jsval" where
  "yearString cfg = year (projectInitDate cfg)"

definition monthString :: "config \<Rightarrow> jsval" where
  "monthString cfg = month (projectInitDate cfg)"

definition configProjectNameProp :: "config \<Rightarrow> string" where
  "configProjectNameProp cfg = projectName cfg"

text \<open>
  The class \<open>\s\<close> on U+0000..U+00FF: tab, line feed, vertical tab, form feed, carriage
  return, space and no-break space.
\<close>

definition is_space :: "char \<Rightarrow> bool" where
  "is_space c = ((of_char c :: nat) \<in> {9, 10, 11, 12, 13, 32, 160})"

text \<open>
  \<open>s.replace(/\s+/g, '-')\<close>: at a whitespace character the greedy \<open>\s+\<close> takes the whole
  run, a single hyphen is written and the scan goes on behind the run.
\<close>

function replace_ws :: "string \<Rightarrow> string" where
  "replace_ws [] = []"
| "replace_ws (c # cs) =
     (if is_space c then CHR ''-'' # replace_ws (dropWhile is_space cs) else c # replace_ws cs)"
  by pat_completeness auto
termination
  by (relation "measure length") (auto simp: length_dropWhile_le less_Suc_eq_le)

text \<open>
  \<open>toLowerCase\<close> on U+0000..U+00FF: the capital letters are A-Z and U+00C0..U+00DE
  without the multiplication sign U+00D7, each 32 below its small letter.
\<close>

definition lower_char :: "char \<Rightarrow> char" where
  "lower_char c =
     (let n = (of_char c :: nat)
      in if (65 \<le> n \<and> n \<le> 90) \<or> (192 \<le> n \<and> n \<le> 222 \<and> n \<noteq> 215) then char_of (n + 32) else c)"

definition toLowerCase :: "string \<Rightarrow> string" where
  "toLowerCase s = map lower_char s"

definition convertedProjectName :: "config \<Rightarrow> string" where
  "convertedProjectName cfg = toLowerCase (replace_ws (configProjectNameProp cfg))"

definition objectsLocation :: "config \<Rightarrow> string" where
  "objectsLocation cfg =
     ''/machinist/dist/'' @ to_string (yearString cfg) @ ''/'' @ to_string (monthString cfg)
       @ ''/'' @ convertedProjectName cfg @ ''/''"

section \<open>Pre-flight checks\<close>

datatype error =
    DirtyWorkspace
  | MalformedDate
  | MissingDate

definition checkProjectInitDate :: "config \<Rightarrow> error + unit" where
  "checkProjectInitDate cfg =
     (if \<not> regexp_test reYear (yearString cfg) \<or> typeof (yearString cfg) \<noteq> ''string''
         \<or> typeof (monthString cfg) \<noteq> ''string'' \<or> \<not> regexp_test reMonth (monthString cfg)
      then Inl MalformedDate
      else if \<not> truthy (year (projectInitDate cfg)) \<or> \<not> truthy (month (projectInitDate cfg))
      then Inl MissingDate
      else Inr ())"

text \<open>
  Modelled from the spec: the library \<open>git-assert-clean\<close> is not part of the sources.
  Section 4.2 has the working-tree check run synchronously and fail when the tree has
  uncommitted modifications: \<open>assertClean\<close> calls its callback in place, with an error
  object (here its message) when the tree is dirty and with nothing otherwise.
\<close>

definition assertClean :: "bool \<Rightarrow> (string option \<Rightarrow> error + unit) \<Rightarrow> error + unit" where
  "assertClean dirty callback = callback (if dirty then Some ''Working tree is dirty'' else None)"

definition cleanStaging :: "bool \<Rightarrow> error + unit" where
  "cleanStaging dirty =
     assertClean dirty (\<lambda>err. if err \<noteq> None then Inl DirtyWorkspace else Inr ())"

section \<open>Files in a stream and the remote store\<close>

text \<open>
  The content of a file is kept symbolically: \<open>Gzip b\<close> is the compressed form of \<open>b\<close>.
\<close>

datatype body = Raw string | Gzip body

record vinyl =
  dirname :: string
  basename :: string
  extname :: string
  contents :: body
  s3_headers :: "(string \<times> string) list"

record s3object =
  obj_body :: body
  obj_headers :: "(string \<times> string) list"

datatype call =
    HeadObject string
  | PutObject string s3object
  | ListObjects string
  | DeleteObjects "string list"

text \<open>
  The bucket maps keys to objects, \<open>calls\<close> is the log of the requests sent to the store, and
  \<open>cache\<close> is the publisher's local record of the content last published under a key. An
  ETag is modelled by the content it is the digest of.
\<close>

record s3state =
  bucket :: "(string \<times> s3object) list"
  calls :: "call list"
  cache :: "(string \<times> body) list"

record publish_options =
  simulate :: bool
  createOnly :: bool

datatype file_state = Create | Update | Skip | Cached | Simulated

definition SIM :: bool where
  "SIM = False"

text \<open>The requests that change the store.\<close>

fun is_write :: "call \<Rightarrow> bool" where
  "is_write (PutObject k ob) = True"
| "is_write (DeleteObjects ks) = True"
| "is_write (HeadObject k) = False"
| "is_write (ListObjects p) = False"

text \<open>
  The cache records only keys that are in the bucket: this holds for an empty cache and
  is kept by every run, as long as nothing else deletes from the bucket.
\<close>

definition cache_consistent :: "s3state \<Rightarrow> bool" where
  "cache_consistent st = list_all (\<lambda>e. map_of (bucket st) (fst e) \<noteq> None) (cache st)"

definition putObject :: "string \<Rightarrow> vinyl \<Rightarrow> s3state \<Rightarrow> s3state" where
  "putObject k f st =
     (let ob = \<lparr>obj_body = contents f, obj_headers = s3_headers f\<rparr>
      in st\<lparr>bucket := AList.update k ob (bucket st), calls := calls st @ [PutObject k ob]\<rparr>)"

text \<open>
  Modelled from the spec: the plugin \<open>gulp-awspublish\<close> is not part of the sources. Its
  \<open>publish\<close> stage follows sections 3, 4.3 and 6: a file whose content the cache already
  records under its key is passed on without a request; otherwise the store is asked for
  the key, an object that is already there is left alone in create-only mode or when its
  content is that of the file, and in every other case the file is uploaded with its
  headers. The key of a file (\<open>file.s3.path\<close>, which the plugin derives from the renamed
  path) is the parameter \<open>s3path\<close>.
\<close>

definition publish_file ::
  "(vinyl \<Rightarrow> string) \<Rightarrow> publish_options \<Rightarrow> vinyl \<Rightarrow> s3state \<Rightarrow> file_state \<times> s3state" where
  "publish_file s3path opts f st =
     (let k = s3path f
      in if map_of (cache st) k = Some (contents f) then (Cached, st)
         else if simulate opts then (Simulated, st)
         else
           (let st1 = st\<lparr>calls := calls st @ [HeadObject k]\<rparr>
            in case map_of (bucket st) k of
                 None \<Rightarrow> (Create, putObject k f st1)
               | Some ob \<Rightarrow>
                   if createOnly opts \<or> obj_body ob = contents f then (Skip, st1)
                   else (Update, putObject k f st1)))"

text \<open>
  Modelled from the spec: the \<open>cache\<close> stage of \<open>gulp-awspublish\<close> (section 3, upload cache
  state) records the content of every file that went through a request.
\<close>

definition cache_file :: "(vinyl \<Rightarrow> string) \<Rightarrow> vinyl \<Rightarrow> file_state \<times> s3state \<Rightarrow> s3state" where
  "cache_file s3path f r =
     (case r of (fs, st) \<Rightarrow>
        if fs = Cached \<or> fs = Simulated then st
        else st\<lparr>cache := AList.update (s3path f) (contents f) (cache st)\<rparr>)"

text \<open>
  Modelled from the spec: the \<open>sync\<close> stage of \<open>gulp-awspublish\<close> (section 6 and the
  glossary) lists the keys with the prefix once the stream has ended and deletes those
  that no file of the stream has.
\<close>

definition sync :: "string \<Rightarrow> string list \<Rightarrow> s3state \<Rightarrow> s3state" where
  "sync pfx newFiles st =
     (let toDelete = filter (\<lambda>k. k \<notin> set newFiles) (filter (prefix pfx) (map fst (bucket st)));
          st1 = st\<lparr>calls := calls st @ [ListObjects pfx]\<rparr>
      in if toDelete = [] then st1
         else st1\<lparr>bucket := filter (\<lambda>e. fst e \<notin> set toDelete) (bucket st1),
                  calls := calls st1 @ [DeleteObjects toDelete]\<rparr>)"

text \<open>
  Modelled from the spec: \<open>awspublish.gzip\<close> compresses the content and marks the file
  with the content-encoding header (section 4.3).
\<close>

definition awspublish_gzip :: "vinyl \<Rightarrow> vinyl" where
  "awspublish_gzip f =
     f\<lparr>contents := Gzip (contents f),
       s3_headers := AList.update ''Content-Encoding'' ''gzip'' (s3_headers f)\<rparr>"

text \<open>
  Modelled from the spec: a glob \<open>dir/**/*.{a,b}\<close> of \<open>gulp.src\<close> or \<open>gulp-filter\<close> selects
  the files under the directory by an allow-list of extensions (section 4.3); \<open>extname\<close>
  carries its dot.
\<close>

definition has_ext :: "string list \<Rightarrow> vinyl \<Rightarrow> bool" where
  "has_ext exts f = (extname f \<in> set (map (\<lambda>e. CHR ''.'' # e) exts))"

section \<open>Task publish-assets\<close>

definition assets_exts :: "string list" where
  "assets_exts = [''jpg'', ''png'', ''gif'', ''mp3'', ''ogg'', ''flac'', ''mp4'', ''mov'', ''avi'',
                  ''webm'', ''zip'', ''rar'', ''webp'', ''txt'', ''csv'', ''json'', ''pdf'']"

definition gzipFilter :: "vinyl \<Rightarrow> bool" where
  "gzipFilter f = has_ext [''txt'', ''csv'', ''json'', ''js'', ''css''] f"

definition rename_assets :: "config \<Rightarrow> vinyl \<Rightarrow> vinyl" where
  "rename_assets cfg f =
     f\<lparr>dirname := ''/cdnassets/projects/'' @ to_string (yearString cfg) @ ''/''
         @ to_string (monthString cfg) @ ''/'' @ convertedProjectName cfg @ ''/'' @ dirname f\<rparr>"

text \<open>
  The files that reach the \<open>publish\<close> stage: the selected ones, renamed, those that the
  filter lets through compressed and the others restored as they are.
\<close>

definition assets_stream :: "config \<Rightarrow> vinyl list \<Rightarrow> vinyl list" where
  "assets_stream cfg files =
     map (\<lambda>f. if gzipFilter f then awspublish_gzip f else f)
       (map (rename_assets cfg) (filter (has_ext assets_exts) files))"

definition assets_options :: publish_options where
  "assets_options = \<lparr>simulate = SIM, createOnly = True\<rparr>"

definition publish_assets :: "(vinyl \<Rightarrow> string) \<Rightarrow> config \<Rightarrow> vinyl list \<Rightarrow> s3state \<Rightarrow> s3state" where
  "publish_assets s3path cfg files st =
     foldl (\<lambda>st f. cache_file s3path f (publish_file s3path assets_options f st))
       st (assets_stream cfg files)"

section \<open>Task publish-story\<close>

datatype outcome = Raised error | Halted | Finished

text \<open>
  Modelled from the spec: \<open>prompt.confirm\<close> of \<open>gulp-prompt\<close> is the confirmation gate of
  section 4.4; the files go on when the operator confirms, and nothing does otherwise.
\<close>

definition prompt_confirm :: "bool \<Rightarrow> vinyl list \<Rightarrow> vinyl list option" where
  "prompt_confirm answer files = (if answer then Some files else None)"

definition rename_story :: "config \<Rightarrow> vinyl \<Rightarrow> vinyl" where
  "rename_story cfg f = f\<lparr>dirname := objectsLocation cfg @ dirname f\<rparr>"

text \<open>The argument of \<open>publisherStory.sync\<close>, a template literal of its own.\<close>

definition syncPrefix :: "config \<Rightarrow> string" where
  "syncPrefix cfg =
     ''machinist/dist/'' @ to_string (yearString cfg) @ ''/'' @ to_string (monthString cfg)
       @ ''/'' @ convertedProjectName cfg"

definition story_src :: "vinyl list \<Rightarrow> vinyl list" where
  "story_src files = filter (\<lambda>f. \<not> has_ext [''ai'', ''html'', ''jsx''] f) files"

text \<open>\<open>createOnly\<close> is not given to this \<open>publish\<close>, so it is not set.\<close>

definition story_options :: publish_options where
  "story_options = \<lparr>simulate = SIM, createOnly = False\<rparr>"

definition story_upload :: "(vinyl \<Rightarrow> string) \<Rightarrow> config \<Rightarrow> vinyl list \<Rightarrow> s3state \<Rightarrow> s3state" where
  "story_upload s3path cfg files st =
     sync (syncPrefix cfg) (map s3path files)
       (foldl (\<lambda>st f. snd (publish_file s3path story_options f st)) st files)"

text \<open>
  \<open>dirty\<close> is the state of the working tree, \<open>answer\<close> what the operator replies to the
  prompt, \<open>files\<close> what is under \<open>config.dest\<close>, and \<open>st\<close> the store before the task.
\<close>

definition publish_story ::
  "(vinyl \<Rightarrow> string) \<Rightarrow> config \<Rightarrow> bool \<Rightarrow> bool \<Rightarrow> vinyl list \<Rightarrow> s3state \<Rightarrow> outcome \<times> s3state" where
  "publish_story s3path cfg dirty answer files st =
     (case cleanStaging dirty of
        Inl e \<Rightarrow> (Raised e, st)
      | Inr _ \<Rightarrow>
          (case checkProjectInitDate cfg of
             Inl e \<Rightarrow> (Raised e, st)
           | Inr _ \<Rightarrow>
               (case prompt_confirm answer (story_src files) of
                  None \<Rightarrow> (Halted, st)
                | Some confirmed \<Rightarrow>
                    (Finished, story_upload s3path cfg (map (rename_story cfg) confirmed) st))))"

section \<open>Task combineJson\<close>

datatype json =
    JsNull
  | JsBool bool
  | JsNum int
  | JsStr string
  | JsArr "json list"
  | JsObj "(string \<times> json) list"

definition hex_char :: "nat \<Rightarrow> char" where
  "hex_char d = ''0123456789abcdef'' ! d"

text \<open>
  \<open>JSON.stringify\<close> without indentation: a string is quoted with the quotation mark,
  the backslash and the control characters escaped; the members of an object come in the
  order of its properties.
\<close>

definition quote_char :: "char \<Rightarrow> string" where
  "quote_char c =
     (let n = (of_char c :: nat)
      in if n = 34 then [CHR 0x5C, CHR 0x22]
         else if n = 92 then [CHR 0x5C, CHR 0x5C]
         else if n = 8 then [CHR 0x5C, CHR ''b'']
         else if n = 12 then [CHR 0x5C, CHR ''f'']
         else if n = 10 then [CHR 0x5C, CHR ''n'']
         else if n = 13 then [CHR 0x5C, CHR ''r'']
         else if n = 9 then [CHR 0x5C, CHR ''t'']
         else if n < 32 then
           [CHR 0x5C, CHR ''u'', CHR ''0'', CHR ''0'', hex_char (n div 16), hex_char (n mod 16)]
         else [c])"

definition quote :: "string \<Rightarrow> string" where
  "quote s = CHR 0x22 # concat (map quote_char s) @ [CHR 0x22]"

fun commas :: "string list \<Rightarrow> string" where
  "commas [] = []"
| "commas [x] = x"
| "commas (x # y # ys) = x @ CHR '','' # commas (y # ys)"

fun stringify :: "json \<Rightarrow> string" where
  "stringify JsNull = ''null''"
| "stringify (JsBool b) = (if b then ''true'' else ''false'')"
| "stringify (JsNum i) = to_string (JNumber i)"
| "stringify (JsStr s) = quote s"
| "stringify (JsArr vs) = CHR ''['' # commas (map stringify vs) @ '']''"
| "stringify (JsObj kvs) =
     CHR ''{'' # commas (map (\<lambda>(k, v). quote k @ CHR '':'' # stringify v) kvs) @ ''}''"

text \<open>
  The callback given to \<open>jsoncombine\<close>. \<open>data\<close> is the object the plugin builds, one
  property per source file, named after the file without its extension and holding the
  parsed document; a property that is not there reads as \<open>undefined\<close>, and
  \<open>JSON.stringify\<close> leaves a member with that value out. The result is the string handed
  to \<open>Buffer.from\<close>.
\<close>

definition combineJson :: "(string \<rightharpoonup> json) \<Rightarrow> string" where
  "combineJson data =
     stringify (JsObj (List.map_filter (\<lambda>(k, v). map_option (Pair k) v)
                         [(''embed'', data ''embed''), (''styles'', data ''main'')]))"

section \<open>The specification's wording\<close>

text \<open>A year of four digits that starts with 1 or 2, and the twelve months 01 to 12.\<close>

definition is_digit :: "char \<Rightarrow> bool" where
  "is_digit c = (c \<in> set ''0123456789'')"

fun valid_year :: "string \<Rightarrow> bool" where
  "valid_year [a, b, c, d] = (a \<in> set ''12'' \<and> is_digit b \<and> is_digit c \<and> is_digit d)"
| "valid_year _ = False"

definition valid_month :: "string \<Rightarrow> bool" where
  "valid_month m =
     (m \<in> set [''01'', ''02'', ''03'', ''04'', ''05'', ''06'', ''07'', ''08'', ''09'', ''10'', ''11'', ''12''])"

text \<open>
  The slug as section 4.1 words it: the name is trimmed, each run of whitespace left
  between its words becomes one hyphen, and the result is lower-cased.
\<close>

definition trim :: "string \<Rightarrow> string" where
  "trim s = rev (dropWhile is_space (rev (dropWhile is_space s)))"

function words_ws :: "string \<Rightarrow> string list" where
  "words_ws s =
     (let t = dropWhile is_space s
      in if t = [] then []
         else takeWhile (\<lambda>c. \<not> is_space c) t # words_ws (dropWhile (\<lambda>c. \<not> is_space c) t))"
  by pat_completeness auto
termination
proof (relation "measure length")
  show "wf (measure length)" by simp
next
  fix s t :: string
  assume t: "t = dropWhile is_space s" and ne: "t \<noteq> []"
  from ne obtain c u where cu: "t = c # u" by (cases t) simp_all
  have "\<not> is_space (hd (dropWhile is_space s))" using t ne hd_dropWhile [of is_space s] by blast
  then have "\<not> is_space c" using t cu by (metis list.sel(1))
  then have "dropWhile (\<lambda>c. \<not> is_space c) t = dropWhile (\<lambda>c. \<not> is_space c) u" using cu by simp
  moreover have "length (dropWhile (\<lambda>c. \<not> is_space c) u) \<le> length u" by (rule length_dropWhile_le)
  moreover have "length t \<le> length s" using t by (simp add: length_dropWhile_le)
  ultimately show "(dropWhile (\<lambda>c. \<not> is_space c) t, s) \<in> measure length" using cu by simp
qed

declare words_ws.simps [simp del]

fun join_hyphen :: "string list \<Rightarrow> string" where
  "join_hyphen [] = []"
| "join_hyphen [w] = w"
| "join_hyphen (w # v # ws) = w @ CHR ''-'' # join_hyphen (v # ws)"

definition spec_normalize :: "string \<Rightarrow> string" where
  "spec_normalize s = toLowerCase (join_hyphen (words_ws (trim s)))"

text \<open>
  What the code adds to that slug: a hyphen in front when the name starts with
  whitespace, and one behind when a name that has a word ends with whitespace.
\<close>

definition leading_hyphen :: "string \<Rightarrow> string" where
  "leading_hyphen s = (if s \<noteq> [] \<and> is_space (hd s) then ''-'' else [])"

definition trailing_hyphen :: "string \<Rightarrow> string" where
  "trailing_hyphen s = (if dropWhile is_space s \<noteq> [] \<and> is_space (last s) then ''-'' else [])"

section \<open>Example inputs\<close>

definition cfg_2017_01 :: config where
  "cfg_2017_01 = \<lparr>projectInitDate = \<lparr>year = JString ''2017'', month = JString ''01''\<rparr>,
                  projectName = ''My   Cool  Story'', dest = ''www''\<rparr>"

text \<open>A key that joins the directory and the name of a file, and a store with nothing in it.\<close>

definition joined_path :: "vinyl \<Rightarrow> string" where
  "joined_path f = dirname f @ ''/'' @ basename f @ extname f"

definition empty_store :: s3state where
  "empty_store = \<lparr>bucket = [], calls = [], cache = []\<rparr>"

definition local_file :: "string \<Rightarrow> string \<Rightarrow> string \<Rightarrow> vinyl" where
  "local_file name ext text =
     \<lparr>dirname = ''.'', basename = name, extname = ext, contents = Raw text, s3_headers = []\<rparr>"

text \<open>
  For a file at the top of the tree, whose directory is a dot: the key is the renamed
  path without the slash in front and without the dot.
\<close>

definition relative_key :: "vinyl \<Rightarrow> string" where
  "relative_key f = tl (butlast (dirname f)) @ basename f @ extname f"

definition story_store :: s3state where
  "story_store =
     \<lparr>bucket =
        [(''machinist/dist/2017/01/my-cool-story/old.js'', \<lparr>obj_body = Raw ''old'', obj_headers = []\<rparr>),
         (''machinist/dist/2017/01/my-cool-story/main.css'', \<lparr>obj_body = Raw ''body{}'', obj_headers = []\<rparr>)],
      calls = [], cache = []\<rparr>"

text \<open>A store that holds the page \<open>index.html\<close> as it is in the local tree.\<close>

definition html_store :: s3state where
  "html_store =
     \<lparr>bucket =
        [(''machinist/dist/2017/01/my-cool-story/index.html'', \<lparr>obj_body = Raw ''page'', obj_headers = []\<rparr>)],
      calls = [], cache = []\<rparr>"

section \<open>Properties of the date patterns\<close>

lemma char_eq_code: "(c = d) = ((of_char c :: nat) = of_char d)"
  by (simp add: inj_eq [OF inj_of_char])

lemma range_0_9: "((48::nat) \<le> of_char c \<and> (of_char c::nat) \<le> 57) = is_digit c"
proof -
  have "((48::nat) \<le> n \<and> n \<le> 57) = (n \<in> {48, 49, 50, 51, 52, 53, 54, 55, 56, 57})" for n :: nat
    by simp arith
  then show ?thesis
    unfolding is_digit_def by (simp add: char_eq_code [of c])
qed

lemma range_0_2: "((48::nat) \<le> of_char c \<and> (of_char c::nat) \<le> 50) = (c \<in> set ''012'')"
proof -
  have "((48::nat) \<le> n \<and> n \<le> 50) = (n \<in> {48, 49, 50})" for n :: nat
    by simp arith
  then show ?thesis
    by (simp add: char_eq_code [of c])
qed

lemma range_1_9: "((49::nat) \<le> of_char c \<and> (of_char c::nat) \<le> 57) = (c \<in> set ''123456789'')"
proof -
  have "((49::nat) \<le> n \<and> n \<le> 57) = (n \<in> {49, 50, 51, 52, 53, 54, 55, 56, 57})" for n :: nat
    by simp arith
  then show ?thesis
    by (simp add: char_eq_code [of c])
qed

lemma rmatch_digit:
  "rmatch (Range CHR ''0'' CHR ''9'') s = (case s of [] \<Rightarrow> [] | c # t \<Rightarrow> if is_digit c then [t] else [])"
  by (simp add: range_0_9 split: list.splits)

lemma reYear_valid_year: "regexp_test reYear (JString y) = valid_year y"
  unfolding regexp_test_def reYear_def
  by (cases y rule: valid_year.cases)
     (simp_all add: eval_nat_numeral rmatch_digit del: rmatch.simps(2) split: list.splits)

lemma reMonth_valid_month: "regexp_test reMonth (JString m) = valid_month m"
  unfolding regexp_test_def reMonth_def valid_month_def
  by (simp add: range_0_2 range_1_9 split: list.splits) auto

lemma typeof_string: "(typeof v = ''string'') = (\<exists>s. v = JString s)"
  by (cases v) simp_all

lemma valid_year_nonempty: "valid_year y \<Longrightarrow> y \<noteq> []"
  by (cases y) simp_all

lemma valid_month_nonempty: "valid_month m \<Longrightarrow> m \<noteq> []"
  by (auto simp: valid_month_def)

lemma checkProjectInitDate_cases:
  "checkProjectInitDate cfg =
     (if \<exists>y m. yearString cfg = JString y \<and> monthString cfg = JString m \<and> valid_year y \<and> valid_month m
      then Inr () else Inl MalformedDate)"
proof (cases "\<exists>y m. yearString cfg = JString y \<and> monthString cfg = JString m")
  case True
  then obtain y m where ym: "yearString cfg = JString y" "monthString cfg = JString m" by blast
  then have "year (projectInitDate cfg) = JString y" "month (projectInitDate cfg) = JString m"
    by (simp_all add: yearString_def monthString_def)
  then show ?thesis using ym
    by (auto simp: checkProjectInitDate_def reYear_valid_year reMonth_valid_month
        dest: valid_year_nonempty valid_month_nonempty)
next
  case False
  then have "typeof (yearString cfg) \<noteq> ''string'' \<or> typeof (monthString cfg) \<noteq> ''string''"
    by (simp add: typeof_string)
  then show ?thesis using False by (auto simp: checkProjectInitDate_def)
qed

text \<open>
  C2: the date validator accepts exactly when the year is a string that matches
  \<open>^[12][0-9]{3}$\<close> and the month is a string that matches \<open>^(1[0-2]|0[1-9])$\<close>, that
  is a year of four digits starting with 1 or 2 and one of the months 01 to 12; in every
  other case it raises.
\<close>

theorem checkProjectInitDate_accepts_iff:
  "(checkProjectInitDate cfg = Inr ()) =
     (\<exists>y m. yearString cfg = JString y \<and> monthString cfg = JString m
        \<and> regexp_test reYear (JString y) \<and> regexp_test reMonth (JString m))
   \<and> (checkProjectInitDate cfg = Inr ()) =
     (\<exists>y m. yearString cfg = JString y \<and> monthString cfg = JString m \<and> valid_year y \<and> valid_month m)
   \<and> (checkProjectInitDate cfg \<noteq> Inr () \<longrightarrow> (\<exists>e. checkProjectInitDate cfg = Inl e))"
  by (simp add: checkProjectInitDate_cases reYear_valid_year reMonth_valid_month)

theorem checkProjectInitDate_accepts_iff_witness:
  "checkProjectInitDate cfg_2017_01 = Inr ()
   \<and> checkProjectInitDate (cfg_2017_01\<lparr>projectInitDate := \<lparr>year = JString ''2017'', month = JString ''13''\<rparr>\<rparr>) \<noteq> Inr ()
   \<and> checkProjectInitDate (cfg_2017_01\<lparr>projectInitDate := \<lparr>year = JNumber 2017, month = JString ''01''\<rparr>\<rparr>) \<noteq> Inr ()"
  using checkProjectInitDate_accepts_iff [of cfg_2017_01]
    checkProjectInitDate_accepts_iff [of "cfg_2017_01\<lparr>projectInitDate := \<lparr>year = JString ''2017'', month = JString ''13''\<rparr>\<rparr>"]
    checkProjectInitDate_accepts_iff [of "cfg_2017_01\<lparr>projectInitDate := \<lparr>year = JNumber 2017, month = JString ''01''\<rparr>\<rparr>"]
  by (simp add: cfg_2017_01_def yearString_def monthString_def reYear_valid_year reMonth_valid_month
      valid_month_def is_digit_def)

text \<open>
  C10: the second error of the date validator, for a missing year or month, is never
  raised: whenever the year or the month is not a string, or is absent or empty, the
  first check has already raised.
\<close>

theorem missing_date_branch_unreachable:
  "checkProjectInitDate cfg \<noteq> Inl MissingDate
   \<and> (typeof (year (projectInitDate cfg)) \<noteq> ''string'' \<or> typeof (month (projectInitDate cfg)) \<noteq> ''string''
        \<longrightarrow> checkProjectInitDate cfg = Inl MalformedDate)
   \<and> (\<not> truthy (year (projectInitDate cfg)) \<or> \<not> truthy (month (projectInitDate cfg))
        \<longrightarrow> checkProjectInitDate cfg = Inl MalformedDate)"
proof -
  have a: "checkProjectInitDate cfg \<noteq> Inl MissingDate"
    by (simp add: checkProjectInitDate_cases)
  have b: "checkProjectInitDate cfg = Inl MalformedDate"
    if "typeof (year (projectInitDate cfg)) \<noteq> ''string'' \<or> typeof (month (projectInitDate cfg)) \<noteq> ''string''"
    using that by (auto simp: checkProjectInitDate_def yearString_def monthString_def)
  have c: "checkProjectInitDate cfg = Inl MalformedDate"
    if "\<not> truthy (year (projectInitDate cfg)) \<or> \<not> truthy (month (projectInitDate cfg))"
    using that a unfolding checkProjectInitDate_def by (auto split: if_splits)
  from a b c show ?thesis by blast
qed

theorem missing_date_branch_unreachable_witness:
  "typeof (year (projectInitDate (cfg_2017_01\<lparr>projectInitDate := \<lparr>year = JUndefined, month = JString ''01''\<rparr>\<rparr>))) \<noteq> ''string''
   \<and> \<not> truthy (month (projectInitDate (cfg_2017_01\<lparr>projectInitDate := \<lparr>year = JString ''2017'', month = JString []\<rparr>\<rparr>)))
   \<and> checkProjectInitDate (cfg_2017_01\<lparr>projectInitDate := \<lparr>year = JUndefined, month = JString ''01''\<rparr>\<rparr>) = Inl MalformedDate
   \<and> checkProjectInitDate (cfg_2017_01\<lparr>projectInitDate := \<lparr>year = JString ''2017'', month = JString []\<rparr>\<rparr>) = Inl MalformedDate"
  using missing_date_branch_unreachable [of "cfg_2017_01\<lparr>projectInitDate := \<lparr>year = JUndefined, month = JString ''01''\<rparr>\<rparr>"]
    missing_date_branch_unreachable [of "cfg_2017_01\<lparr>projectInitDate := \<lparr>year = JString ''2017'', month = JString []\<rparr>\<rparr>"]
  by simp


section \<open>Properties of the slug\<close>

lemma words_ws_Nil [simp]: "words_ws [] = []"
  by (simp add: words_ws.simps)

lemma words_ws_space [simp]: "is_space c \<Longrightarrow> words_ws (c # cs) = words_ws cs"
  by (subst words_ws.simps, subst (2) words_ws.simps) simp

lemma words_ws_dropWhile [simp]: "words_ws (dropWhile is_space s) = words_ws s"
  by (induction s) auto

lemma words_ws_single [simp]: "\<not> is_space c \<Longrightarrow> words_ws [c] = [c] # []"
  by (simp add: words_ws.simps)

lemma words_ws_char_space [simp]:
  "\<not> is_space c \<Longrightarrow> is_space d \<Longrightarrow> words_ws (c # d # ds) = [c] # words_ws ds"
  by (subst words_ws.simps) simp

lemma words_ws_char_char:
  "\<not> is_space c \<Longrightarrow> \<not> is_space d \<Longrightarrow>
   words_ws (c # d # ds) = (c # hd (words_ws (d # ds))) # tl (words_ws (d # ds))"
  by (subst words_ws.simps, subst (2 3) words_ws.simps) simp

lemma words_ws_char_ne: "\<not> is_space d \<Longrightarrow> words_ws (d # ds) \<noteq> []"
  by (subst words_ws.simps) simp

lemma words_ws_Nil_iff: "(words_ws s = []) = (dropWhile is_space s = [])"
  by (subst words_ws.simps) (simp add: Let_def)

lemma join_hyphen_cons_hd: "ws \<noteq> [] \<Longrightarrow> join_hyphen ((c # hd ws) # tl ws) = c # join_hyphen ws"
  by (cases ws rule: join_hyphen.cases) auto

lemma last_dropWhile: "dropWhile P s \<noteq> [] \<Longrightarrow> last (dropWhile P s) = last s"
  by (induction s) (auto split: if_splits)

lemma dropWhile_idem: "dropWhile P (dropWhile P s) = dropWhile P s"
  by (induction s) auto

lemma trailing_hyphen_dropWhile: "trailing_hyphen (dropWhile is_space s) = trailing_hyphen s"
proof (cases "dropWhile is_space s = []")
  case True
  then show ?thesis by (simp add: trailing_hyphen_def)
next
  case False
  then show ?thesis by (simp add: trailing_hyphen_def dropWhile_idem last_dropWhile)
qed

lemma trailing_hyphen_space: "is_space c \<Longrightarrow> trailing_hyphen (c # cs) = trailing_hyphen cs"
  by (cases cs) (simp_all add: trailing_hyphen_def)

lemma replace_ws_decomp:
  "replace_ws s = leading_hyphen s @ join_hyphen (words_ws s) @ trailing_hyphen s"
proof (induction s rule: replace_ws.induct)
  case 1
  show ?case by (simp add: leading_hyphen_def trailing_hyphen_def)
next
  case (2 c cs)
  show ?case
  proof (cases "is_space c")
    case True
    let ?t = "dropWhile is_space cs"
    have "leading_hyphen ?t = []"
      unfolding leading_hyphen_def using hd_dropWhile [of is_space cs] by auto
    then show ?thesis using 2(1) [OF True] True
      by (simp add: leading_hyphen_def trailing_hyphen_dropWhile trailing_hyphen_space)
  next
    case False
    note IH = 2(2) [OF False]
    show ?thesis
    proof (cases cs)
      case Nil
      then show ?thesis using False by (simp add: leading_hyphen_def trailing_hyphen_def)
    next
      case (Cons d ds)
      show ?thesis
      proof (cases "is_space d")
        case True
        show ?thesis
        proof (cases "words_ws ds")
          case Nil
          then have "dropWhile is_space ds = []" using words_ws_Nil_iff [of ds] by simp
          then show ?thesis using IH \<open>\<not> is_space c\<close> \<open>is_space d\<close> \<open>cs = d # ds\<close> Nil
            by (simp add: leading_hyphen_def trailing_hyphen_def)
        next
          case (Cons w ws)
          then have "dropWhile is_space ds \<noteq> []" using words_ws_Nil_iff [of ds] by simp
          then show ?thesis using IH \<open>\<not> is_space c\<close> \<open>is_space d\<close> \<open>cs = d # ds\<close> Cons
            by (simp add: leading_hyphen_def trailing_hyphen_def)
        qed
      next
        case False
        then show ?thesis using IH \<open>\<not> is_space c\<close> Cons
          by (simp add: leading_hyphen_def trailing_hyphen_def words_ws_char_char
              join_hyphen_cons_hd words_ws_char_ne)
      qed
    qed
  qed
qed

lemma words_ws_snoc_space: "is_space c \<Longrightarrow> words_ws (s @ [c]) = words_ws s"
proof (induction s)
  case Nil
  then show ?case by simp
next
  case (Cons a s)
  show ?case
  proof (cases "is_space a")
    case True
    then show ?thesis using Cons by simp
  next
    case False
    show ?thesis
    proof (cases s)
      case Nil
      then show ?thesis using False Cons.prems by simp
    next
      case (Cons d ds)
      then show ?thesis using False Cons.IH [OF Cons.prems]
        by (cases "is_space d") (simp_all add: words_ws_char_char)
    qed
  qed
qed

lemma words_ws_strip_right: "words_ws (rev (dropWhile is_space (rev t))) = words_ws t"
  by (induction t rule: rev_induct) (simp_all add: words_ws_snoc_space)

lemma words_ws_trim: "words_ws (trim s) = words_ws s"
  by (simp add: trim_def words_ws_strip_right)

lemma toLowerCase_append: "toLowerCase (a @ b) = toLowerCase a @ toLowerCase b"
  by (simp add: toLowerCase_def)

lemma toLowerCase_leading_hyphen: "toLowerCase (leading_hyphen s) = leading_hyphen s"
  unfolding leading_hyphen_def toLowerCase_def by (simp add: lower_char_def)

lemma toLowerCase_trailing_hyphen: "toLowerCase (trailing_hyphen s) = trailing_hyphen s"
  unfolding trailing_hyphen_def toLowerCase_def by (simp add: lower_char_def)

text \<open>
  C1 (amended): the name is not trimmed. Each run of whitespace, a leading or a trailing
  one too, becomes a single hyphen and the result is lower-cased: the output is the slug
  of the trimmed name, with a hyphen in front when the name starts with whitespace and
  one behind when it ends with whitespace after a word. The name \<open>My   Cool  Story\<close>
  gives \<open>my-cool-story\<close>.
\<close>

theorem convertedProjectName_slug:
  "convertedProjectName cfg =
     leading_hyphen (projectName cfg) @ spec_normalize (projectName cfg)
       @ trailing_hyphen (projectName cfg)
   \<and> convertedProjectName (cfg\<lparr>projectName := ''My   Cool  Story''\<rparr>) = ''my-cool-story''"
proof -
  have "convertedProjectName c =
     leading_hyphen (projectName c) @ spec_normalize (projectName c)
       @ trailing_hyphen (projectName c)" for c
    by (simp add: convertedProjectName_def configProjectNameProp_def spec_normalize_def
        replace_ws_decomp toLowerCase_append toLowerCase_leading_hyphen
        toLowerCase_trailing_hyphen words_ws_trim)
  moreover have "toLowerCase (replace_ws ''My   Cool  Story'') = ''my-cool-story''"
    by code_simp
  ultimately show ?thesis
    by (simp add: convertedProjectName_def configProjectNameProp_def)
qed

theorem convertedProjectName_slug_witness:
  "convertedProjectName (cfg_2017_01\<lparr>projectName := '' My Story  ''\<rparr>) = ''-my-story-''"
proof -
  have "convertedProjectName (cfg_2017_01\<lparr>projectName := '' My Story  ''\<rparr>) =
     leading_hyphen '' My Story  '' @ spec_normalize '' My Story  '' @ trailing_hyphen '' My Story  ''"
    using convertedProjectName_slug [of "cfg_2017_01\<lparr>projectName := '' My Story  ''\<rparr>"] by simp
  also have "\<dots> = ''-my-story-''"
    by code_simp
  finally show ?thesis .
qed

theorem convertedProjectName_trim_counterexample:
  "convertedProjectName (cfg_2017_01\<lparr>projectName := '' My Story''\<rparr>) = ''-my-story''
   \<and> spec_normalize '' My Story'' = ''my-story''
   \<and> convertedProjectName (cfg_2017_01\<lparr>projectName := '' My Story''\<rparr>) \<noteq> spec_normalize '' My Story''"
  by code_simp


section \<open>Properties of the publish path\<close>

lemma sync_calls: "calls (sync pfx newFiles st) \<noteq> [] \<and> ListObjects pfx \<in> set (calls (sync pfx newFiles st))"
  by (simp add: sync_def Let_def)

text \<open>
  C7 (amended): the publish target descriptor is the string
  \<open>/machinist/dist/<year>/<month>/<slug>/\<close>, and the rename step puts it in front of the
  directory of each published file. The prefix given to the sync step is a string of its
  own: the same path without the slash in front and the slash behind.
\<close>

theorem objectsLocation_and_syncPrefix:
  "objectsLocation cfg =
     ''/machinist/dist'' @ ''/'' @ to_string (yearString cfg) @ ''/'' @ to_string (monthString cfg)
       @ ''/'' @ convertedProjectName cfg @ ''/''
   \<and> dirname (rename_story cfg f) = objectsLocation cfg @ dirname f
   \<and> objectsLocation cfg = ''/'' @ syncPrefix cfg @ ''/''
   \<and> (fst (publish_story s3path cfg dirty answer files st) = Finished \<longrightarrow>
        ListObjects (syncPrefix cfg) \<in> set (calls (snd (publish_story s3path cfg dirty answer files st))))"
  by (auto simp: objectsLocation_def syncPrefix_def rename_story_def publish_story_def
      story_upload_def sync_calls split: sum.splits option.splits)

theorem objectsLocation_and_syncPrefix_witness:
  "fst (publish_story (\<lambda>f. dirname f @ ''/'' @ basename f @ extname f) cfg_2017_01 False True [] \<lparr>bucket = [], calls = [], cache = []\<rparr>) = Finished
   \<and> ListObjects ''machinist/dist/2017/01/my-cool-story'' \<in> set (calls (snd (publish_story (\<lambda>f. dirname f @ ''/'' @ basename f @ extname f) cfg_2017_01 False True [] \<lparr>bucket = [], calls = [], cache = []\<rparr>)))
   \<and> objectsLocation cfg_2017_01 = ''/machinist/dist/2017/01/my-cool-story/''"
proof -
  let ?r = "publish_story (\<lambda>f. dirname f @ ''/'' @ basename f @ extname f) cfg_2017_01 False True [] \<lparr>bucket = [], calls = [], cache = []\<rparr>"
  have fin: "fst ?r = Finished" by code_simp
  have sp: "syncPrefix cfg_2017_01 = ''machinist/dist/2017/01/my-cool-story''" by code_simp
  have ol: "objectsLocation cfg_2017_01 = ''/machinist/dist/2017/01/my-cool-story/''" by code_simp
  from objectsLocation_and_syncPrefix [of cfg_2017_01 _ "\<lambda>f. dirname f @ ''/'' @ basename f @ extname f" False True "[]" "\<lparr>bucket = [], calls = [], cache = []\<rparr>"] fin
  have "ListObjects (syncPrefix cfg_2017_01) \<in> set (calls (snd ?r))" by blast
  with fin sp ol show ?thesis by simp
qed

theorem objectsLocation_not_syncPrefix_counterexample:
  "objectsLocation cfg_2017_01 = ''/machinist/dist/2017/01/my-cool-story/''
   \<and> syncPrefix cfg_2017_01 = ''machinist/dist/2017/01/my-cool-story''
   \<and> objectsLocation cfg_2017_01 \<noteq> syncPrefix cfg_2017_01"
  by code_simp

section \<open>Properties of the metadata combiner\<close>

text \<open>
  C9: the combiner gives one JSON object with the two members \<open>embed\<close> and \<open>styles\<close>, which
  hold the document of \<open>embed.json\<close> and the document of \<open>main.json\<close>; for the documents
  \<open>{"a":1}\<close> and \<open>{"b":2}\<close> the output is \<open>{"embed":{"a":1},"styles":{"b":2}}\<close>.
\<close>

theorem combineJson_two_members:
  "(data ''embed'' = Some e \<and> data ''main'' = Some m \<longrightarrow>
      combineJson data = stringify (JsObj [(''embed'', e), (''styles'', m)])
      \<and> combineJson data =
          CHR ''{'' # quote ''embed'' @ '':'' @ stringify e @ '','' @ quote ''styles'' @ '':'' @ stringify m @ ''}'')
   \<and> combineJson [''embed'' \<mapsto> JsObj [(''a'', JsNum 1)], ''main'' \<mapsto> JsObj [(''b'', JsNum 2)]] =
       ''{'' @ [CHR 0x22] @ ''embed'' @ [CHR 0x22] @ '':{'' @ [CHR 0x22] @ ''a'' @ [CHR 0x22] @ '':1},''
         @ [CHR 0x22] @ ''styles'' @ [CHR 0x22] @ '':{'' @ [CHR 0x22] @ ''b'' @ [CHR 0x22] @ '':2}}''"
proof -
  have "combineJson [''embed'' \<mapsto> JsObj [(''a'', JsNum 1)], ''main'' \<mapsto> JsObj [(''b'', JsNum 2)]] =
       ''{'' @ [CHR 0x22] @ ''embed'' @ [CHR 0x22] @ '':{'' @ [CHR 0x22] @ ''a'' @ [CHR 0x22] @ '':1},''
         @ [CHR 0x22] @ ''styles'' @ [CHR 0x22] @ '':{'' @ [CHR 0x22] @ ''b'' @ [CHR 0x22] @ '':2}}''"
    by code_simp
  then show ?thesis
    by (simp add: combineJson_def List.map_filter_def)
qed

theorem combineJson_two_members_witness:
  "combineJson [''embed'' \<mapsto> JsArr [JsStr ''x'', JsNull], ''main'' \<mapsto> JsBool True] =
     ''{'' @ [CHR 0x22] @ ''embed'' @ [CHR 0x22] @ '':['' @ [CHR 0x22] @ ''x'' @ [CHR 0x22] @ '',null],''
         @ [CHR 0x22] @ ''styles'' @ [CHR 0x22] @ '':true}''"
proof -
  let ?d = "[''embed'' \<mapsto> JsArr [JsStr ''x'', JsNull], ''main'' \<mapsto> JsBool True]"
  have "?d ''embed'' = Some (JsArr [JsStr ''x'', JsNull]) \<and> ?d ''main'' = Some (JsBool True)" by simp
  with combineJson_two_members [of ?d "JsArr [JsStr ''x'', JsNull]" "JsBool True"]
  have "combineJson ?d = stringify (JsObj [(''embed'', JsArr [JsStr ''x'', JsNull]), (''styles'', JsBool True)])"
    by blast
  also have "\<dots> = ''{'' @ [CHR 0x22] @ ''embed'' @ [CHR 0x22] @ '':['' @ [CHR 0x22] @ ''x'' @ [CHR 0x22] @ '',null],''
         @ [CHR 0x22] @ ''styles'' @ [CHR 0x22] @ '':true}''"
    by code_simp
  finally show ?thesis .
qed


section \<open>Properties of the store operations\<close>

lemma map_of_update: "map_of (AList.update k v al) k' = (if k' = k then Some v else map_of al k')"
  by (simp add: update_conv')

lemma bucket_putObject:
  "bucket (putObject k f st) =
     AList.update k \<lparr>obj_body = contents f, obj_headers = s3_headers f\<rparr> (bucket st)"
  by (simp add: putObject_def Let_def)

lemma calls_putObject:
  "calls (putObject k f st) =
     calls st @ [PutObject k \<lparr>obj_body = contents f, obj_headers = s3_headers f\<rparr>]"
  by (simp add: putObject_def Let_def)

lemma cache_putObject: "cache (putObject k f st) = cache st"
  by (simp add: putObject_def Let_def)

lemma bucket_cache_file: "bucket (cache_file s3path f r) = bucket (snd r)"
  by (cases r) (simp add: cache_file_def)

lemma calls_cache_file: "calls (cache_file s3path f r) = calls (snd r)"
  by (cases r) (simp add: cache_file_def)

lemma cache_publish_file: "cache (snd (publish_file s3path opts f st)) = cache st"
  by (simp add: publish_file_def Let_def cache_putObject split: option.splits)

text \<open>A step never removes a key, and in create-only mode it never changes an object.\<close>

lemma publish_file_keeps_keys:
  "map_of (bucket st) k \<noteq> None \<Longrightarrow> map_of (bucket (snd (publish_file s3path opts f st))) k \<noteq> None"
  by (auto simp: publish_file_def Let_def bucket_putObject map_of_update split: option.splits)

lemma publish_file_createOnly:
  "createOnly opts \<Longrightarrow> map_of (bucket st) k = Some ob \<Longrightarrow>
   map_of (bucket (snd (publish_file s3path opts f st))) k = Some ob"
  by (auto simp: publish_file_def Let_def bucket_putObject map_of_update split: option.splits)

lemma publish_file_distinct:
  "distinct (map fst (bucket st)) \<Longrightarrow>
   distinct (map fst (bucket (snd (publish_file s3path opts f st))))"
  by (auto simp: publish_file_def Let_def bucket_putObject distinct_update split: option.splits)

lemma publish_file_present:
  "\<not> simulate opts \<Longrightarrow> fst (publish_file s3path opts f st) \<noteq> Cached \<Longrightarrow>
   map_of (bucket (snd (publish_file s3path opts f st))) (s3path f) \<noteq> None"
  by (auto simp: publish_file_def Let_def bucket_putObject map_of_update split: option.splits if_splits)

lemma publish_file_Cached:
  "fst (publish_file s3path opts f st) = Cached \<Longrightarrow> map_of (cache st) (s3path f) = Some (contents f)"
  by (auto simp: publish_file_def Let_def split: option.splits if_splits)

lemma publish_file_Simulated:
  "\<not> simulate opts \<Longrightarrow> fst (publish_file s3path opts f st) \<noteq> Simulated"
  by (auto simp: publish_file_def Let_def split: option.splits if_splits)

lemma cache_consistent_lookup:
  "cache_consistent st \<Longrightarrow> map_of (cache st) k = Some b \<Longrightarrow> map_of (bucket st) k \<noteq> None"
  unfolding cache_consistent_def list_all_iff by (metis map_of_SomeD fst_conv)

lemma set_update_subset: "set (AList.update k v al) \<subseteq> insert (k, v) (set al)"
  by (induction al) auto

lemma assets_step_consistent:
  assumes "cache_consistent st" "\<not> simulate opts"
  shows "cache_consistent (cache_file s3path f (publish_file s3path opts f st))
    \<and> map_of (bucket (cache_file s3path f (publish_file s3path opts f st))) (s3path f) \<noteq> None"
proof -
  let ?r = "publish_file s3path opts f st"
  let ?st' = "cache_file s3path f ?r"
  have b: "bucket ?st' = bucket (snd ?r)" by (rule bucket_cache_file)
  have keep: "map_of (bucket ?st') k \<noteq> None" if "map_of (bucket st) k \<noteq> None" for k
    using that publish_file_keeps_keys [of st k] b by simp
  have present: "map_of (bucket ?st') (s3path f) \<noteq> None"
  proof (cases "fst ?r = Cached")
    case True
    then have "map_of (cache st) (s3path f) = Some (contents f)" by (rule publish_file_Cached)
    then show ?thesis using assms(1) cache_consistent_lookup keep by blast
  next
    case False
    then show ?thesis using publish_file_present [OF assms(2) False] b by simp
  qed
  have sub: "set (cache ?st') \<subseteq> insert (s3path f, contents f) (set (cache st))"
    using set_update_subset [of "s3path f" "contents f" "cache st"]
      cache_publish_file [of s3path opts f st]
    by (cases ?r) (auto simp: cache_file_def)
  have "map_of (bucket ?st') (fst e) \<noteq> None" if e: "e \<in> set (cache ?st')" for e
  proof (cases "e = (s3path f, contents f)")
    case True
    then show ?thesis using present by simp
  next
    case False
    then have "e \<in> set (cache st)" using e sub by blast
    then have "map_of (bucket st) (fst e) \<noteq> None"
      using assms(1) unfolding cache_consistent_def list_all_iff by blast
    then show ?thesis by (rule keep)
  qed
  then have "cache_consistent ?st'"
    unfolding cache_consistent_def list_all_iff by blast
  with present show ?thesis by simp
qed


lemma publish_file_present_createOnly:
  "createOnly opts \<Longrightarrow> map_of (bucket st) (s3path f) \<noteq> None \<Longrightarrow>
   bucket (snd (publish_file s3path opts f st)) = bucket st
   \<and> filter is_write (calls (snd (publish_file s3path opts f st))) = filter is_write (calls st)"
  by (auto simp: publish_file_def Let_def split: option.splits)


section \<open>Properties of the asset publisher\<close>

lemma assets_fold_keeps_keys:
  "map_of (bucket st) k \<noteq> None \<Longrightarrow>
   map_of (bucket (foldl (\<lambda>st f. cache_file s3path f (publish_file s3path opts f st)) st fs)) k \<noteq> None"
proof (induction fs arbitrary: st)
  case Nil
  then show ?case by simp
next
  case (Cons f fs)
  have "map_of (bucket (cache_file s3path f (publish_file s3path opts f st))) k \<noteq> None"
    using publish_file_keeps_keys [OF Cons.prems] by (simp add: bucket_cache_file)
  from Cons.IH [OF this] show ?case by simp
qed

lemma assets_fold_createOnly:
  "createOnly opts \<Longrightarrow> map_of (bucket st) k = Some ob \<Longrightarrow>
   map_of (bucket (foldl (\<lambda>st f. cache_file s3path f (publish_file s3path opts f st)) st fs)) k = Some ob"
proof (induction fs arbitrary: st)
  case Nil
  then show ?case by simp
next
  case (Cons f fs)
  have "map_of (bucket (cache_file s3path f (publish_file s3path opts f st))) k = Some ob"
    using publish_file_createOnly [OF Cons.prems] by (simp add: bucket_cache_file)
  from Cons.IH [OF Cons.prems(1) this] show ?case by simp
qed

lemma assets_fold_distinct:
  "distinct (map fst (bucket st)) \<Longrightarrow>
   distinct (map fst (bucket (foldl (\<lambda>st f. cache_file s3path f (publish_file s3path opts f st)) st fs)))"
proof (induction fs arbitrary: st)
  case Nil
  then show ?case by simp
next
  case (Cons f fs)
  have "distinct (map fst (bucket (cache_file s3path f (publish_file s3path opts f st))))"
    using publish_file_distinct [OF Cons.prems] by (simp add: bucket_cache_file)
  from Cons.IH [OF this] show ?case by simp
qed

lemma assets_fold_consistent:
  "cache_consistent st \<Longrightarrow> \<not> simulate opts \<Longrightarrow>
   cache_consistent (foldl (\<lambda>st f. cache_file s3path f (publish_file s3path opts f st)) st fs)
   \<and> (\<forall>f \<in> set fs.
        map_of (bucket (foldl (\<lambda>st f. cache_file s3path f (publish_file s3path opts f st)) st fs))
          (s3path f) \<noteq> None)"
proof (induction fs arbitrary: st)
  case Nil
  then show ?case by simp
next
  case (Cons f fs)
  let ?st' = "cache_file s3path f (publish_file s3path opts f st)"
  have step: "cache_consistent ?st'" "map_of (bucket ?st') (s3path f) \<noteq> None"
    using assets_step_consistent [OF Cons.prems] by simp_all
  have "map_of (bucket (foldl (\<lambda>st f. cache_file s3path f (publish_file s3path opts f st)) ?st' fs))
          (s3path f) \<noteq> None"
    using step(2) by (rule assets_fold_keeps_keys)
  with Cons.IH [OF step(1) Cons.prems(2)] show ?case by simp
qed

lemma assets_fold_present:
  "createOnly opts \<Longrightarrow> \<forall>f \<in> set fs. map_of (bucket st) (s3path f) \<noteq> None \<Longrightarrow>
   bucket (foldl (\<lambda>st f. cache_file s3path f (publish_file s3path opts f st)) st fs) = bucket st
   \<and> filter is_write (calls (foldl (\<lambda>st f. cache_file s3path f (publish_file s3path opts f st)) st fs))
       = filter is_write (calls st)"
proof (induction fs arbitrary: st)
  case Nil
  then show ?case by simp
next
  case (Cons f fs)
  let ?st' = "cache_file s3path f (publish_file s3path opts f st)"
  have f: "map_of (bucket st) (s3path f) \<noteq> None" using Cons.prems(2) by simp
  have step: "bucket ?st' = bucket st" "filter is_write (calls ?st') = filter is_write (calls st)"
    using publish_file_present_createOnly [of opts st s3path f] Cons.prems(1) f
    by (simp_all add: bucket_cache_file calls_cache_file)
  have "\<forall>g \<in> set fs. map_of (bucket ?st') (s3path g) \<noteq> None"
    using Cons.prems(2) step(1) by simp
  from Cons.IH [OF Cons.prems(1) this] step show ?case by simp
qed


lemma one_entry: "distinct (map fst al) \<Longrightarrow> map_of al k = Some v \<Longrightarrow> length (filter (\<lambda>e. fst e = k) al) = 1"
proof (induction al)
  case Nil
  then show ?case by simp
next
  case (Cons e al)
  show ?case
  proof (cases "fst e = k")
    case True
    then have "k \<notin> fst ` set al" using Cons.prems(1) by auto
    then have "filter (\<lambda>e. fst e = k) al = []" by (auto simp: filter_empty_conv)
    then show ?thesis using True by simp
  next
    case False
    then show ?thesis using Cons by (cases e) auto
  qed
qed

lemma assets_options_simps: "createOnly assets_options" "\<not> simulate assets_options"
  by (simp_all add: assets_options_def SIM_def)

lemma publish_assets_fold:
  "publish_assets s3path cfg files st =
     foldl (\<lambda>st f. cache_file s3path f (publish_file s3path assets_options f st)) st
       (assets_stream cfg files)"
  by (simp add: publish_assets_def)

text \<open>
  C5: the asset publisher never overwrites a remote object. Whatever is in the bucket
  before a run is there unchanged after it; every file of the upload stream has an
  object under its key after the first run, and after a second run, of the same files or
  of changed ones, that key still holds the one same object; a second run of the same
  files leaves the bucket as it is and sends no write.
\<close>

theorem publish_assets_create_only:
  assumes "distinct (map fst (bucket st))" and "cache_consistent st"
  shows "(\<forall>k ob. map_of (bucket st) k = Some ob \<longrightarrow>
            map_of (bucket (publish_assets s3path cfg files st)) k = Some ob)
    \<and> (\<forall>f \<in> set (assets_stream cfg files).
          \<exists>ob. map_of (bucket (publish_assets s3path cfg files st)) (s3path f) = Some ob
             \<and> map_of (bucket (publish_assets s3path cfg files' (publish_assets s3path cfg files st)))
                  (s3path f) = Some ob
             \<and> length (filter (\<lambda>e. fst e = s3path f)
                  (bucket (publish_assets s3path cfg files' (publish_assets s3path cfg files st)))) = 1)
    \<and> bucket (publish_assets s3path cfg files (publish_assets s3path cfg files st))
        = bucket (publish_assets s3path cfg files st)
    \<and> filter is_write (calls (publish_assets s3path cfg files (publish_assets s3path cfg files st)))
        = filter is_write (calls (publish_assets s3path cfg files st))"
proof -
  let ?st1 = "publish_assets s3path cfg files st"
  let ?st2 = "publish_assets s3path cfg files' ?st1"
  have keep: "map_of (bucket (publish_assets s3path cfg fs s)) k = Some ob"
    if "map_of (bucket s) k = Some ob" for s fs k ob
    using that unfolding publish_assets_fold
    by (rule assets_fold_createOnly [OF assets_options_simps(1)])
  have present: "\<forall>f \<in> set (assets_stream cfg files). map_of (bucket ?st1) (s3path f) \<noteq> None"
    unfolding publish_assets_fold
    using assets_fold_consistent [OF assms(2) assets_options_simps(2)] by blast
  have d2: "distinct (map fst (bucket ?st2))"
    unfolding publish_assets_fold by (intro assets_fold_distinct assms(1))
  have second: "\<exists>ob. map_of (bucket ?st1) (s3path f) = Some ob
             \<and> map_of (bucket ?st2) (s3path f) = Some ob
             \<and> length (filter (\<lambda>e. fst e = s3path f) (bucket ?st2)) = 1"
    if "f \<in> set (assets_stream cfg files)" for f
  proof -
    from present that obtain ob where ob: "map_of (bucket ?st1) (s3path f) = Some ob" by blast
    then have "map_of (bucket ?st2) (s3path f) = Some ob" by (rule keep)
    with ob one_entry [OF d2 this] show ?thesis by blast
  qed
  have same: "bucket (publish_assets s3path cfg files ?st1) = bucket ?st1
    \<and> filter is_write (calls (publish_assets s3path cfg files ?st1)) = filter is_write (calls ?st1)"
    using assets_fold_present [OF assets_options_simps(1), of "assets_stream cfg files" ?st1 s3path] present
    unfolding publish_assets_fold by blast
  from keep second same show ?thesis by blast
qed


theorem publish_assets_create_only_witness:
  "distinct (map fst (bucket empty_store)) \<and> cache_consistent empty_store
   \<and> local_file ''logo'' ''.png'' ''v1'' \<in> set [local_file ''logo'' ''.png'' ''v1'']
   \<and> map_of (bucket (publish_assets joined_path cfg_2017_01 [local_file ''logo'' ''.png'' ''v1''] empty_store))
        ''/cdnassets/projects/2017/01/my-cool-story/./logo.png''
        = Some \<lparr>obj_body = Raw ''v1'', obj_headers = []\<rparr>
   \<and> map_of (bucket (publish_assets joined_path cfg_2017_01 [local_file ''logo'' ''.png'' ''v2'']
          (publish_assets joined_path cfg_2017_01 [local_file ''logo'' ''.png'' ''v1''] empty_store)))
        ''/cdnassets/projects/2017/01/my-cool-story/./logo.png''
        = Some \<lparr>obj_body = Raw ''v1'', obj_headers = []\<rparr>"
proof -
  let ?f = "local_file ''logo'' ''.png'' ''v1''"
  let ?g = "rename_assets cfg_2017_01 ?f"
  let ?k = "''/cdnassets/projects/2017/01/my-cool-story/./logo.png''"
  let ?st1 = "publish_assets joined_path cfg_2017_01 [?f] empty_store"
  have d: "distinct (map fst (bucket empty_store))" by (simp add: empty_store_def)
  have c: "cache_consistent empty_store" by (simp add: empty_store_def cache_consistent_def)
  have g: "?g \<in> set (assets_stream cfg_2017_01 [?f])" by code_simp
  have k: "joined_path ?g = ?k" by code_simp
  have first: "map_of (bucket ?st1) ?k = Some \<lparr>obj_body = Raw ''v1'', obj_headers = []\<rparr>"
    by code_simp
  from publish_assets_create_only [OF d c, of joined_path cfg_2017_01 "[?f]" "[local_file ''logo'' ''.png'' ''v2'']"] g
  obtain ob where "map_of (bucket ?st1) (joined_path ?g) = Some ob"
    "map_of (bucket (publish_assets joined_path cfg_2017_01 [local_file ''logo'' ''.png'' ''v2''] ?st1))
       (joined_path ?g) = Some ob"
    by blast
  with first k d c show ?thesis by simp
qed

section \<open>Compression in the asset publisher\<close>









section \<open>Properties of the story publisher\<close>

lemma publish_file_untouched:
  assumes "map_of (bucket st) k = Some ob" and "s3path f = k \<longrightarrow> contents f = obj_body ob"
  shows "map_of (bucket (snd (publish_file s3path opts f st))) k = Some ob
    \<and> (\<forall>ob'. PutObject k ob' \<in> set (calls (snd (publish_file s3path opts f st)))
          \<longrightarrow> PutObject k ob' \<in> set (calls st))
    \<and> (\<forall>ks. DeleteObjects ks \<in> set (calls (snd (publish_file s3path opts f st)))
          \<longrightarrow> DeleteObjects ks \<in> set (calls st))"
  using assms
  by (auto simp: publish_file_def Let_def bucket_putObject calls_putObject map_of_update
      split: option.splits)

lemma story_fold_untouched:
  "map_of (bucket st) k = Some ob \<Longrightarrow> \<forall>f \<in> set fs. s3path f = k \<longrightarrow> contents f = obj_body ob \<Longrightarrow>
   map_of (bucket (foldl (\<lambda>st f. snd (publish_file s3path opts f st)) st fs)) k = Some ob
   \<and> (\<forall>ob'. PutObject k ob' \<in> set (calls (foldl (\<lambda>st f. snd (publish_file s3path opts f st)) st fs))
         \<longrightarrow> PutObject k ob' \<in> set (calls st))
   \<and> (\<forall>ks. DeleteObjects ks \<in> set (calls (foldl (\<lambda>st f. snd (publish_file s3path opts f st)) st fs))
         \<longrightarrow> DeleteObjects ks \<in> set (calls st))"
proof (induction fs arbitrary: st)
  case Nil
  then show ?case by simp
next
  case (Cons f fs)
  let ?st' = "snd (publish_file s3path opts f st)"
  have f: "s3path f = k \<longrightarrow> contents f = obj_body ob" using Cons.prems(2) by simp
  note step = publish_file_untouched [of st k ob s3path f opts, OF Cons.prems(1) f]
  have rest: "\<forall>g \<in> set fs. s3path g = k \<longrightarrow> contents g = obj_body ob" using Cons.prems(2) by simp
  from Cons.IH [OF _ rest, of ?st'] step show ?case by simp
qed

lemma map_of_filter_keep: "\<forall>v. Q (k, v) \<Longrightarrow> map_of (filter Q al) k = map_of al k"
  by (induction al) auto

lemma map_of_filter_drop: "\<forall>v. \<not> Q (k, v) \<Longrightarrow> map_of (filter Q al) k = None"
  by (induction al) auto

lemma bucket_sync:
  "bucket (sync pfx newFiles st) =
     filter (\<lambda>e. \<not> (prefix pfx (fst e) \<and> fst e \<notin> set newFiles)) (bucket st)"
proof -
  let ?del = "filter (\<lambda>k. k \<notin> set newFiles) (filter (prefix pfx) (map fst (bucket st)))"
  let ?P = "\<lambda>e. \<not> (prefix pfx (fst e) \<and> fst e \<notin> set newFiles)"
  have in_del: "(fst e \<notin> set ?del) = ?P e" if "e \<in> set (bucket st)" for e
    using that by auto
  have eq: "filter (\<lambda>e. fst e \<notin> set ?del) (bucket st) = filter ?P (bucket st)"
    using in_del by (intro filter_cong refl) blast
  show ?thesis
  proof (cases "?del = []")
    case True
    then have "filter (\<lambda>e. fst e \<notin> set ?del) (bucket st) = bucket st"
      by (metis empty_iff empty_set filter_True)
    with eq have "filter ?P (bucket st) = bucket st" by (simp only:)
    moreover have "bucket (sync pfx newFiles st) = bucket st"
      using True unfolding sync_def Let_def by (simp only: if_True) simp
    ultimately show ?thesis by (simp only:)
  next
    case False
    then have "bucket (sync pfx newFiles st) = filter (\<lambda>e. fst e \<notin> set ?del) (bucket st)"
      unfolding sync_def Let_def by (simp only: if_False) simp
    with eq show ?thesis by (simp only:)
  qed
qed

lemma sync_deletes:
  "prefix pfx k \<Longrightarrow> k \<notin> set newFiles \<Longrightarrow> map_of (bucket (sync pfx newFiles st)) k = None"
  unfolding bucket_sync by (rule map_of_filter_drop) simp

lemma sync_keeps:
  "k \<in> set newFiles \<Longrightarrow> map_of (bucket (sync pfx newFiles st)) k = map_of (bucket st) k"
  unfolding bucket_sync by (rule map_of_filter_keep) simp

lemma sync_calls_put:
  "PutObject k ob \<in> set (calls (sync pfx newFiles st)) = (PutObject k ob \<in> set (calls st))"
  by (simp add: sync_def Let_def)

lemma sync_calls_delete:
  "DeleteObjects ks \<in> set (calls (sync pfx newFiles st)) \<Longrightarrow>
   DeleteObjects ks \<in> set (calls st) \<or> set ks \<inter> set newFiles = {}"
  by (auto simp: sync_def Let_def split: if_splits)

lemma cleanStaging_iff: "cleanStaging dirty = (if dirty then Inl DirtyWorkspace else Inr ())"
  by (simp add: cleanStaging_def assertClean_def)

lemma publish_story_Finished:
  "fst (publish_story s3path cfg dirty answer files st) = Finished \<Longrightarrow>
   \<not> dirty \<and> checkProjectInitDate cfg = Inr () \<and> answer
   \<and> snd (publish_story s3path cfg dirty answer files st)
       = story_upload s3path cfg (map (rename_story cfg) (story_src files)) st"
  by (auto simp: publish_story_def cleanStaging_iff prompt_confirm_def
      split: sum.splits option.splits if_splits)

lemma story_upload_deletes:
  "prefix (syncPrefix cfg) k \<Longrightarrow> k \<notin> s3path ` set fs \<Longrightarrow>
   map_of (bucket (story_upload s3path cfg fs st)) k = None"
  unfolding story_upload_def by (rule sync_deletes) simp_all

lemma story_upload_untouched:
  assumes d: "distinct (map s3path fs)" and f: "f \<in> set fs"
    and ob: "map_of (bucket st) (s3path f) = Some ob" "obj_body ob = contents f"
  shows "map_of (bucket (story_upload s3path cfg fs st)) (s3path f) = Some ob
    \<and> (\<forall>ob'. PutObject (s3path f) ob' \<in> set (calls (story_upload s3path cfg fs st))
          \<longrightarrow> PutObject (s3path f) ob' \<in> set (calls st))
    \<and> (\<forall>ks. DeleteObjects ks \<in> set (calls (story_upload s3path cfg fs st)) \<and> s3path f \<in> set ks
          \<longrightarrow> DeleteObjects ks \<in> set (calls st))"
proof -
  let ?up = "foldl (\<lambda>st f. snd (publish_file s3path story_options f st)) st fs"
  have st': "story_upload s3path cfg fs st = sync (syncPrefix cfg) (map s3path fs) ?up"
    by (simp only: story_upload_def)
  have inj: "inj_on s3path (set fs)" using d by (simp add: distinct_map)
  have same: "\<forall>g \<in> set fs. s3path g = s3path f \<longrightarrow> contents g = obj_body ob"
    using inj f ob(2) by (auto dest: inj_onD)
  note up = story_fold_untouched [OF ob(1) same, of story_options]
  have k: "s3path f \<in> set (map s3path fs)" using f by simp
  have 1: "map_of (bucket (story_upload s3path cfg fs st)) (s3path f) = Some ob"
    unfolding st' using sync_keeps [OF k] up by simp
  have 2: "PutObject (s3path f) ob' \<in> set (calls st)"
    if "PutObject (s3path f) ob' \<in> set (calls (story_upload s3path cfg fs st))" for ob'
    using that up unfolding st' sync_calls_put by blast
  have 3: "DeleteObjects ks \<in> set (calls st)"
    if "DeleteObjects ks \<in> set (calls (story_upload s3path cfg fs st))" "s3path f \<in> set ks" for ks
  proof -
    from that(1) have "DeleteObjects ks \<in> set (calls ?up) \<or> set ks \<inter> set (map s3path fs) = {}"
      unfolding st' by (rule sync_calls_delete)
    with that(2) k have "DeleteObjects ks \<in> set (calls ?up)" by blast
    with up show ?thesis by blast
  qed
  from 1 2 3 show ?thesis by blast
qed

text \<open>
  C6 (amended): the local counterparts that count are the files of the upload stream,
  which leaves out the local files with the extensions ai, html and jsx. When the story
  publisher runs to its end, no object is left under the prefix given to the sync step
  whose key is not the key of a file of the stream; and when the files of the stream
  have pairwise different keys, an object whose content is that of the file of the
  stream with its key is still the same object, with no upload and no deletion sent for
  its key.
\<close>

theorem publish_story_sync:
  assumes "fst (publish_story s3path cfg dirty answer files st) = Finished"
  shows "(\<forall>k. prefix (syncPrefix cfg) k \<and> k \<notin> s3path ` set (map (rename_story cfg) (story_src files))
            \<longrightarrow> map_of (bucket (snd (publish_story s3path cfg dirty answer files st))) k = None)
    \<and> (distinct (map s3path (map (rename_story cfg) (story_src files))) \<longrightarrow>
        (\<forall>f \<in> set (map (rename_story cfg) (story_src files)). \<forall>ob.
            map_of (bucket st) (s3path f) = Some ob \<and> obj_body ob = contents f \<longrightarrow>
              map_of (bucket (snd (publish_story s3path cfg dirty answer files st))) (s3path f) = Some ob
              \<and> (\<forall>ob'. PutObject (s3path f) ob' \<in> set (calls (snd (publish_story s3path cfg dirty answer files st)))
                    \<longrightarrow> PutObject (s3path f) ob' \<in> set (calls st))
              \<and> (\<forall>ks. DeleteObjects ks \<in> set (calls (snd (publish_story s3path cfg dirty answer files st)))
                      \<and> s3path f \<in> set ks
                    \<longrightarrow> DeleteObjects ks \<in> set (calls st))))"
proof -
  define fs where "fs = map (rename_story cfg) (story_src files)"
  define st' where "st' = snd (publish_story s3path cfg dirty answer files st)"
  have st': "st' = story_upload s3path cfg fs st"
    unfolding st'_def fs_def using publish_story_Finished [OF assms] by blast
  have a: "\<forall>k. prefix (syncPrefix cfg) k \<and> k \<notin> s3path ` set fs \<longrightarrow> map_of (bucket st') k = None"
    unfolding st' using story_upload_deletes by blast
  have b: "distinct (map s3path fs) \<longrightarrow>
        (\<forall>f \<in> set fs. \<forall>ob.
            map_of (bucket st) (s3path f) = Some ob \<and> obj_body ob = contents f \<longrightarrow>
              map_of (bucket st') (s3path f) = Some ob
              \<and> (\<forall>ob'. PutObject (s3path f) ob' \<in> set (calls st') \<longrightarrow> PutObject (s3path f) ob' \<in> set (calls st))
              \<and> (\<forall>ks. DeleteObjects ks \<in> set (calls st') \<and> s3path f \<in> set ks
                    \<longrightarrow> DeleteObjects ks \<in> set (calls st)))"
    unfolding st' using story_upload_untouched [of s3path fs _ st _ cfg] by blast
  from a b show ?thesis unfolding fs_def st'_def by blast
qed


theorem publish_story_sync_witness:
  "fst (publish_story relative_key cfg_2017_01 False True [local_file ''main'' ''.css'' ''body{}''] story_store) = Finished
   \<and> map_of (bucket story_store) ''machinist/dist/2017/01/my-cool-story/old.js''
        = Some \<lparr>obj_body = Raw ''old'', obj_headers = []\<rparr>
   \<and> map_of (bucket (snd (publish_story relative_key cfg_2017_01 False True
          [local_file ''main'' ''.css'' ''body{}''] story_store)))
        ''machinist/dist/2017/01/my-cool-story/old.js'' = None
   \<and> map_of (bucket (snd (publish_story relative_key cfg_2017_01 False True
          [local_file ''main'' ''.css'' ''body{}''] story_store)))
        ''machinist/dist/2017/01/my-cool-story/main.css''
        = Some \<lparr>obj_body = Raw ''body{}'', obj_headers = []\<rparr>"
proof -
  let ?files = "[local_file ''main'' ''.css'' ''body{}'']"
  let ?f = "rename_story cfg_2017_01 (local_file ''main'' ''.css'' ''body{}'')"
  let ?r = "publish_story relative_key cfg_2017_01 False True ?files story_store"
  let ?old = "''machinist/dist/2017/01/my-cool-story/old.js''"
  let ?css = "''machinist/dist/2017/01/my-cool-story/main.css''"
  have fin: "fst ?r = Finished" by code_simp
  have fs: "map (rename_story cfg_2017_01) (story_src ?files) = [?f]" by code_simp
  have css: "relative_key ?f = ?css" by code_simp
  have pfx: "prefix (syncPrefix cfg_2017_01) ?old" by code_simp
  have before: "map_of (bucket story_store) ?old = Some \<lparr>obj_body = Raw ''old'', obj_headers = []\<rparr>"
    by (simp add: story_store_def)
  have same: "map_of (bucket story_store) (relative_key ?f) = Some \<lparr>obj_body = Raw ''body{}'', obj_headers = []\<rparr>"
    "obj_body \<lparr>obj_body = Raw ''body{}'', obj_headers = []\<rparr> = contents ?f"
    unfolding css by (simp_all add: story_store_def rename_story_def local_file_def)
  note inst = publish_story_sync [OF fin, unfolded fs]
  have "?old \<notin> relative_key ` set [?f]" by (simp add: css)
  with inst pfx have gone: "map_of (bucket (snd ?r)) ?old = None" by blast
  have "distinct (map relative_key [?f])" "?f \<in> set [?f]" by simp_all
  with inst same have "map_of (bucket (snd ?r)) (relative_key ?f) = Some \<lparr>obj_body = Raw ''body{}'', obj_headers = []\<rparr>"
    by blast
  with fin before gone css show ?thesis by simp
qed

text \<open>
  A page \<open>index.html\<close> is not in the stream: the object with its key and its content is
  deleted by the run.
\<close>

theorem publish_story_sync_excluded_counterexample:
  "contents (local_file ''index'' ''.html'' ''page'') = Raw ''page''
   \<and> relative_key (rename_story cfg_2017_01 (local_file ''index'' ''.html'' ''page''))
       = ''machinist/dist/2017/01/my-cool-story/index.html''
   \<and> map_of (bucket html_store) ''machinist/dist/2017/01/my-cool-story/index.html''
       = Some \<lparr>obj_body = Raw ''page'', obj_headers = []\<rparr>
   \<and> fst (publish_story relative_key cfg_2017_01 False True
          [local_file ''index'' ''.html'' ''page''] html_store) = Finished
   \<and> map_of (bucket (snd (publish_story relative_key cfg_2017_01 False True
          [local_file ''index'' ''.html'' ''page''] html_store)))
        ''machinist/dist/2017/01/my-cool-story/index.html'' = None
   \<and> calls (snd (publish_story relative_key cfg_2017_01 False True
          [local_file ''index'' ''.html'' ''page''] html_store))
       = [ListObjects ''machinist/dist/2017/01/my-cool-story'',
          DeleteObjects [''machinist/dist/2017/01/my-cool-story/index.html'']]"
  by code_simp

text \<open>
  C3: when the working tree is dirty or the project date is rejected, the story publisher
  raises the error of the failed check and the store is as it was: no request has been
  sent and nothing has been written.
\<close>

theorem publish_story_preflight:
  "(dirty \<longrightarrow> publish_story s3path cfg dirty answer files st = (Raised DirtyWorkspace, st))
   \<and> (\<forall>e. \<not> dirty \<and> checkProjectInitDate cfg = Inl e \<longrightarrow>
          publish_story s3path cfg dirty answer files st = (Raised e, st))
   \<and> (dirty \<or> checkProjectInitDate cfg \<noteq> Inr () \<longrightarrow>
        (\<exists>e. fst (publish_story s3path cfg dirty answer files st) = Raised e)
        \<and> snd (publish_story s3path cfg dirty answer files st) = st
        \<and> calls (snd (publish_story s3path cfg dirty answer files st)) = calls st
        \<and> bucket (snd (publish_story s3path cfg dirty answer files st)) = bucket st)"
proof -
  have a: "publish_story s3path cfg dirty answer files st = (Raised DirtyWorkspace, st)" if dirty
    using that by (simp add: publish_story_def cleanStaging_iff)
  have b: "publish_story s3path cfg dirty answer files st = (Raised e, st)"
    if "\<not> dirty" "checkProjectInitDate cfg = Inl e" for e
    using that by (simp add: publish_story_def cleanStaging_iff)
  have "\<exists>e. checkProjectInitDate cfg = Inl e" if "checkProjectInitDate cfg \<noteq> Inr ()"
    using that by (cases "checkProjectInitDate cfg") auto
  with a b show ?thesis by (cases dirty) auto
qed

theorem publish_story_preflight_witness:
  "publish_story relative_key cfg_2017_01 True True [local_file ''main'' ''.css'' ''body{}''] story_store
     = (Raised DirtyWorkspace, story_store)
   \<and> checkProjectInitDate (cfg_2017_01\<lparr>projectInitDate := \<lparr>year = JNumber 2017, month = JString ''01''\<rparr>\<rparr>)
       = Inl MalformedDate
   \<and> publish_story relative_key (cfg_2017_01\<lparr>projectInitDate := \<lparr>year = JNumber 2017, month = JString ''01''\<rparr>\<rparr>)
       False True [local_file ''main'' ''.css'' ''body{}''] story_store
     = (Raised MalformedDate, story_store)"
proof -
  let ?bad = "cfg_2017_01\<lparr>projectInitDate := \<lparr>year = JNumber 2017, month = JString ''01''\<rparr>\<rparr>"
  have c: "checkProjectInitDate ?bad = Inl MalformedDate"
    by (simp add: checkProjectInitDate_cases yearString_def)
  from publish_story_preflight [of True relative_key cfg_2017_01 True "[local_file ''main'' ''.css'' ''body{}'']" story_store]
  have 1: "publish_story relative_key cfg_2017_01 True True [local_file ''main'' ''.css'' ''body{}''] story_store
     = (Raised DirtyWorkspace, story_store)" by blast
  from publish_story_preflight [of False relative_key ?bad True "[local_file ''main'' ''.css'' ''body{}'']" story_store] c
  have 2: "publish_story relative_key ?bad False True [local_file ''main'' ''.css'' ''body{}''] story_store
     = (Raised MalformedDate, story_store)" by blast
  from 1 2 c show ?thesis by blast
qed

text \<open>
  C4: when the operator declines the prompt, the story publisher does not run to its end
  and the store is as it was: no upload and no deletion has been sent.
\<close>

theorem publish_story_declined:
  "fst (publish_story s3path cfg dirty False files st) \<noteq> Finished
   \<and> snd (publish_story s3path cfg dirty False files st) = st
   \<and> filter is_write (calls (snd (publish_story s3path cfg dirty False files st)))
       = filter is_write (calls st)
   \<and> (\<not> dirty \<and> checkProjectInitDate cfg = Inr () \<longrightarrow>
        publish_story s3path cfg dirty False files st = (Halted, st))"
  by (auto simp: publish_story_def cleanStaging_iff prompt_confirm_def split: sum.splits)

theorem publish_story_declined_witness:
  "checkProjectInitDate cfg_2017_01 = Inr ()
   \<and> publish_story relative_key cfg_2017_01 False False [local_file ''main'' ''.css'' ''new''] story_store
       = (Halted, story_store)
   \<and> bucket (snd (publish_story relative_key cfg_2017_01 False True [local_file ''main'' ''.css'' ''new''] story_store))
       = [(''machinist/dist/2017/01/my-cool-story/main.css'', \<lparr>obj_body = Raw ''new'', obj_headers = []\<rparr>)]"
proof -
  have c: "checkProjectInitDate cfg_2017_01 = Inr ()"
    by (simp add: checkProjectInitDate_cases cfg_2017_01_def yearString_def monthString_def
        valid_month_def is_digit_def)
  with publish_story_declined [of relative_key cfg_2017_01 False "[local_file ''main'' ''.css'' ''new'']" story_store]
  have "publish_story relative_key cfg_2017_01 False False [local_file ''main'' ''.css'' ''new''] story_store
       = (Halted, story_store)" by blast
  moreover have "bucket (snd (publish_story relative_key cfg_2017_01 False True [local_file ''main'' ''.css'' ''new''] story_store))
       = [(''machinist/dist/2017/01/my-cool-story/main.css'', \<lparr>obj_body = Raw ''new'', obj_headers = []\<rparr>)]"
    by code_simp
  ultimately show ?thesis using c by blast
qed


end
